theory Spec2Isabelle
  imports Complex_Main
begin

section \<open>Strings and dictionaries as the Python code uses them\<close>

text \<open>
  Strings are lists of characters, a character being one of the code points 0 to 255.
  \<open>is_space\<close> is Python's \<open>str.isspace\<close> on these code points: tab, line feed, vertical
  tab, form feed, carriage return (9 to 13), the separators 0x1c to 0x1f, the blank (32),
  next line (0x85) and the no-break space (0xa0). These are the characters that
  \<open>str.strip()\<close> removes from both ends.
\<close>

definition is_space :: "char \<Rightarrow> bool" where
  "is_space c =
     (let n = (of_char c :: nat)
      in (9 \<le> n \<and> n \<le> 13) \<or> (28 \<le> n \<and> n \<le> 32) \<or> n = 133 \<or> n = 160)"

definition strip :: "string \<Rightarrow> string" where
  "strip s = rev (dropWhile is_space (rev (dropWhile is_space s)))"

text \<open>\<open>s.startswith(p)\<close>.\<close>

definition startswith :: "string \<Rightarrow> string \<Rightarrow> bool" where
  "startswith s p = (take (length p) s = p)"

text \<open>
  \<open>s.split(sep)\<close> is used by the code only through its first two pieces:
  \<open>before_first sep s\<close> is \<open>s.split(sep)[0]\<close>, and \<open>after_first sep s\<close> is the text behind
  the first occurrence of \<open>sep\<close> (\<open>None\<close> when \<open>sep\<close> does not occur, that is when
  \<open>sep in s\<close> is false). All separators used are non-empty.
\<close>

fun before_first :: "string \<Rightarrow> string \<Rightarrow> string" where
  "before_first sep [] = []"
| "before_first sep (c # cs) =
     (if startswith (c # cs) sep then [] else c # before_first sep cs)"

fun after_first :: "string \<Rightarrow> string \<Rightarrow> string option" where
  "after_first sep [] = (if sep = [] then Some [] else None)"
| "after_first sep (c # cs) =
     (if startswith (c # cs) sep then Some (drop (length sep) (c # cs))
      else after_first sep cs)"

text \<open>Decimal rendering of an integer, as \<open>str(n)\<close> and the f-string \<open>{n}\<close> give it.\<close>

fun str_nat :: "nat \<Rightarrow> string" where
  "str_nat n =
     (if n < 10 then [''0123456789'' ! n]
      else str_nat (n div 10) @ [''0123456789'' ! (n mod 10)])"

definition str_int :: "int \<Rightarrow> string" where
  "str_int i = (if i < 0 then CHR ''-'' # str_nat (nat (- i)) else str_nat (nat i))"

text \<open>
  A Python \<open>dict\<close> keeps insertion order, and the selection below depends on the
  iteration order, so a dictionary is an association list. \<open>d[k] = v\<close> replaces the value
  of an existing key in place and appends a new key at the end.
\<close>

type_synonym ('k, 'v) dict = "('k \<times> 'v) list"

fun dict_set :: "'k \<Rightarrow> 'v \<Rightarrow> ('k, 'v) dict \<Rightarrow> ('k, 'v) dict" where
  "dict_set k v [] = [(k, v)]"
| "dict_set k v (p # ps) = (if fst p = k then (k, v) # ps else p # dict_set k v ps)"

definition dict_get :: "('k, 'v) dict \<Rightarrow> 'k \<Rightarrow> 'v option" where
  "dict_get d k = map_of d k"

section \<open>The credential pool: app/services/grok/token.py\<close>

definition MAX_FAILURES :: int where
  "MAX_FAILURES = 3"

definition STATSIG_INVALID :: int where
  "STATSIG_INVALID = 403"

text \<open>
  \<open>TokenType\<close> (app.models.grok_models) names the two partitions of the pool: the
  standard one and the premium one.
\<close>

datatype TokenType = NORMAL | SUPER

text \<open>
  One credential record, as \<open>add_token\<close> writes it. The fields that the code reads with
  \<open>data.get(key, default)\<close> are optional: \<open>None\<close> is a missing key (and, for \<open>status\<close>,
  \<open>lastFailureTime\<close> and \<open>lastFailureReason\<close>, also JSON \<open>null\<close>). A record always has
  \<open>createdTime\<close>, \<open>tags\<close> and \<open>note\<close> (here \<open>note_text\<close>), so it is never the empty dictionary, which is the only
  value of a found record that \<open>if not data\<close> would reject.
\<close>

record token_info =
  createdTime :: int
  remainingQueries :: "int option"
  heavyremainingQueries :: "int option"
  status :: "string option"
  failedCount :: "int option"
  lastFailureTime :: "int option"
  lastFailureReason :: "string option"
  tags :: "string list"
  note_text :: string

text \<open>
  The manager's state: \<open>token_data\<close> with its two partitions, whether a storage backend is
  set (\<open>_storage\<close>), and the dirty flag \<open>_save_pending\<close>.
\<close>

record manager =
  normal_tokens :: "(string, token_info) dict"
  super_tokens :: "(string, token_info) dict"
  storage :: bool
  save_pending :: bool

definition partition_of :: "manager \<Rightarrow> TokenType \<Rightarrow> (string, token_info) dict" where
  "partition_of mgr tt = (case tt of NORMAL \<Rightarrow> normal_tokens mgr | SUPER \<Rightarrow> super_tokens mgr)"

definition set_partition :: "manager \<Rightarrow> TokenType \<Rightarrow> (string, token_info) dict \<Rightarrow> manager" where
  "set_partition mgr tt d =
     (case tt of NORMAL \<Rightarrow> mgr\<lparr>normal_tokens := d\<rparr> | SUPER \<Rightarrow> mgr\<lparr>super_tokens := d\<rparr>)"

definition mark_dirty :: "manager \<Rightarrow> manager" where
  "mark_dirty mgr = mgr\<lparr>save_pending := True\<rparr>"

text \<open>\<open>data.get("failedCount", 0)\<close> and \<open>int(data.get(field, -1))\<close>.\<close>

definition get_failedCount :: "token_info \<Rightarrow> int" where
  "get_failedCount d = (case failedCount d of None \<Rightarrow> 0 | Some n \<Rightarrow> n)"

definition get_remaining :: "token_info \<Rightarrow> string \<Rightarrow> int" where
  "get_remaining d field =
     (case (if field = ''remainingQueries'' then remainingQueries d
            else if field = ''heavyremainingQueries'' then heavyremainingQueries d
            else None) of
        None \<Rightarrow> - 1
      | Some n \<Rightarrow> n)"

text \<open>
  \<open>_extract_sso\<close>: \<open>auth_token.split("sso=")[1].split(";")[0]\<close> when \<open>"sso="\<close> occurs in the
  token, otherwise \<open>None\<close>.
\<close>

definition extract_sso :: "string \<Rightarrow> string option" where
  "extract_sso auth_token =
     (case after_first ''sso='' auth_token of
        None \<Rightarrow> None
      | Some r \<Rightarrow> Some (before_first '';'' (before_first ''sso='' r)))"

text \<open>\<open>_find_token\<close>: the standard partition is searched before the premium one.\<close>

definition find_token :: "manager \<Rightarrow> string \<Rightarrow> (TokenType \<times> token_info) option" where
  "find_token mgr sso =
     (case dict_get (normal_tokens mgr) sso of
        Some d \<Rightarrow> Some (NORMAL, d)
      | None \<Rightarrow>
          (case dict_get (super_tokens mgr) sso of
             Some d \<Rightarrow> Some (SUPER, d)
           | None \<Rightarrow> None))"

text \<open>
  \<open>record_failure\<close>. The found record is mutated in place, which is a store into the
  partition it was found in. \<open>now\<close> is \<open>int(time.time() * 1000)\<close>. Nothing in the body
  raises on a record of this type, so the \<open>except\<close> branch is not reached.
\<close>

definition failure_reason :: "int \<Rightarrow> string \<Rightarrow> string" where
  "failure_reason st msg = str_int st @ '': '' @ msg"

definition fail_record :: "token_info \<Rightarrow> int \<Rightarrow> string \<Rightarrow> int \<Rightarrow> token_info" where
  "fail_record d st msg now =
     (let d1 = d\<lparr>failedCount := Some (get_failedCount d + 1),
                 lastFailureTime := Some now,
                 lastFailureReason := Some (failure_reason st msg)\<rparr>
      in if 400 \<le> st \<and> st < 500 \<and> get_failedCount d1 \<ge> MAX_FAILURES
         then d1\<lparr>status := Some ''expired''\<rparr>
         else d1)"

definition record_failure :: "manager \<Rightarrow> string \<Rightarrow> int \<Rightarrow> string \<Rightarrow> int \<Rightarrow> manager" where
  "record_failure mgr auth_token st msg now =
     (if st = STATSIG_INVALID then mgr
      else
        (case extract_sso auth_token of
           None \<Rightarrow> mgr
         | Some sso \<Rightarrow>
             if sso = [] then mgr
             else
               (case find_token mgr sso of
                  None \<Rightarrow> mgr
                | Some (tt, d) \<Rightarrow>
                    mark_dirty
                      (set_partition mgr tt
                         (dict_set sso (fail_record d st msg now) (partition_of mgr tt))))))"



text \<open>
  \<open>add_token\<close>. The clock is read once for every stored token; \<open>clock i\<close> is the reading
  \<open>int(time.time() * 1000)\<close> taken for the token at position \<open>i\<close> of the list.
\<close>

definition fresh_record :: "int \<Rightarrow> token_info" where
  "fresh_record t =
     \<lparr>createdTime = t, remainingQueries = Some (- 1), heavyremainingQueries = Some (- 1),
      status = Some ''active'', failedCount = Some 0, lastFailureTime = None,
      lastFailureReason = None, tags = [], note_text = []\<rparr>"



text \<open>
  \<open>_reload_if_needed\<close>: in file mode the pool is read again from the token file before
  every selection. \<open>file\<close> is what the read gives: the two partitions of the file, or
  \<open>None\<close> when the file does not exist or reading it fails (the state is then kept).
\<close>

definition reload_if_needed ::
  "manager \<Rightarrow> ((string, token_info) dict \<times> (string, token_info) dict) option \<Rightarrow> manager" where
  "reload_if_needed mgr file =
     (if storage mgr then mgr
      else
        (case file of
           None \<Rightarrow> mgr
         | Some (n, s) \<Rightarrow> mgr\<lparr>normal_tokens := n, super_tokens := s\<rparr>))"

text \<open>
  \<open>select_best\<close>, the inner function of \<open>select_token\<close>. The loop fills the two lists
  \<open>unused\<close> and \<open>used\<close>; \<open>used.sort(key=lambda x: x[1], reverse=True)\<close> is a stable sort
  in descending order of the remaining quota, which is the stable ascending sort on the
  negated quota. The pair \<open>(None, None)\<close> is \<open>None\<close> here, and \<open>(key, remaining)\<close> is
  \<open>Some (key, remaining)\<close>.
\<close>

fun scan_tokens :: "string \<Rightarrow> (string, token_info) dict \<Rightarrow> string list \<Rightarrow> (string \<times> int) list
                      \<Rightarrow> string list \<times> (string \<times> int) list" where
  "scan_tokens field [] unused used = (unused, used)"
| "scan_tokens field ((key, d) # rest) unused used =
     (if status d = Some ''expired'' then scan_tokens field rest unused used
      else if get_failedCount d \<ge> MAX_FAILURES then scan_tokens field rest unused used
      else
        (let remaining = get_remaining d field in
           if remaining = 0 then scan_tokens field rest unused used
           else if remaining = - 1 then scan_tokens field rest (unused @ [key]) used
           else if remaining > 0 then scan_tokens field rest unused (used @ [(key, remaining)])
           else scan_tokens field rest unused used))"

definition sort_reverse :: "(string \<times> int) list \<Rightarrow> (string \<times> int) list" where
  "sort_reverse used = sort_key (\<lambda>x. - snd x) used"

definition select_best :: "(string, token_info) dict \<Rightarrow> string \<Rightarrow> (string \<times> int) option" where
  "select_best tokens field =
     (case scan_tokens field tokens [] [] of
        (unused, used) \<Rightarrow>
          (case unused of
             k # _ \<Rightarrow> Some (k, - 1)
           | [] \<Rightarrow>
               (case sort_reverse used of
                  (k, r) # _ \<Rightarrow> Some (k, r)
                | [] \<Rightarrow> None)))"

datatype error_code = NO_AVAILABLE_TOKEN

text \<open>
  \<open>select_token\<close>. The reload assigns \<open>self.token_data\<close>, so the state after the call is
  returned beside the outcome: the chosen key, or the exception with the code
  \<open>NO_AVAILABLE_TOKEN\<close>. The snapshot is a copy of the two partitions just read.
\<close>

definition select_token ::
  "manager \<Rightarrow> ((string, token_info) dict \<times> (string, token_info) dict) option \<Rightarrow> string
     \<Rightarrow> (error_code + string) \<times> manager" where
  "select_token mgr file model =
     (let m = reload_if_needed mgr file;
          picked =
            (if model = ''grok-4-heavy''
             then select_best (super_tokens m) ''heavyremainingQueries''
             else
               (case select_best (normal_tokens m) ''remainingQueries'' of
                  Some kr \<Rightarrow> Some kr
                | None \<Rightarrow> select_best (super_tokens m) ''remainingQueries''))
      in case picked of
           None \<Rightarrow> (Inl NO_AVAILABLE_TOKEN, m)
         | Some (token_key, remaining) \<Rightarrow> (Inr token_key, m))"

definition get_token ::
  "manager \<Rightarrow> ((string, token_info) dict \<times> (string, token_info) dict) option \<Rightarrow> string
     \<Rightarrow> (error_code + string) \<times> manager" where
  "get_token mgr file model =
     (case select_token mgr file model of
        (Inl e, m) \<Rightarrow> (Inl e, m)
      | (Inr jwt, m) \<Rightarrow> (Inr (''sso-rw='' @ jwt @ '';sso='' @ jwt), m))"

text \<open>
  The selection policy in the specification's words, to compare \<open>select_best\<close> with:
  a candidate is a record that is not expired, has fewer than three failures and a
  remaining quota other than 0; the unused candidates are those with quota -1, the
  metered ones those with a positive quota, both in iteration order.
  \<open>first_greatest ms i\<close> says that position \<open>i\<close> of \<open>ms\<close> holds the greatest quota and is
  the first position that does.
\<close>

definition candidate :: "string \<Rightarrow> token_info \<Rightarrow> bool" where
  "candidate field d =
     (status d \<noteq> Some ''expired'' \<and> get_failedCount d < 3 \<and> get_remaining d field \<noteq> 0)"

definition spec_unused :: "string \<Rightarrow> (string, token_info) dict \<Rightarrow> string list" where
  "spec_unused field tokens =
     map fst (filter (\<lambda>(k, d). candidate field d \<and> get_remaining d field = - 1) tokens)"

definition spec_metered :: "string \<Rightarrow> (string, token_info) dict \<Rightarrow> (string \<times> int) list" where
  "spec_metered field tokens =
     map (\<lambda>(k, d). (k, get_remaining d field))
       (filter (\<lambda>(k, d). candidate field d \<and> get_remaining d field > 0) tokens)"

definition first_greatest :: "(string \<times> int) list \<Rightarrow> nat \<Rightarrow> bool" where
  "first_greatest ms i =
     (i < length ms \<and> (\<forall>j < length ms. snd (ms ! j) \<le> snd (ms ! i))
      \<and> (\<forall>j < i. snd (ms ! j) < snd (ms ! i)))"

section \<open>The proxy pool: app/core/proxy_pool.py\<close>

text \<open>
  \<open>s.replace(old, new, 1)\<close>: the first occurrence of \<open>old\<close> is replaced, the rest is kept.
\<close>

fun replace1 :: "string \<Rightarrow> string \<Rightarrow> string \<Rightarrow> string" where
  "replace1 old new [] = (if old = [] then new else [])"
| "replace1 old new (c # cs) =
     (if startswith (c # cs) old then new @ drop (length old) (c # cs)
      else c # replace1 old new cs)"

text \<open>
  The pool's state. An address is \<open>None\<close> or a string; \<open>truthy\<close> is Python's truth value
  of such a value (\<open>None\<close> and the empty string are false).
\<close>

record proxy_pool =
  pool_url :: "string option"
  static_proxy :: "string option"
  current_proxy :: "string option"
  last_fetch_time :: real
  fetch_interval :: int
  enabled :: bool

definition truthy :: "string option \<Rightarrow> bool" where
  "truthy s = (case s of None \<Rightarrow> False | Some x \<Rightarrow> x \<noteq> [])"

text \<open>
  \<open>_normalize_proxy\<close>: the empty string is returned as it is; otherwise the address is
  stripped, \<open>sock5h://\<close> becomes \<open>socks5h://\<close>, \<open>sock5://\<close> becomes \<open>socks5://\<close>, and
  \<open>socks5://\<close> becomes \<open>socks5h://\<close>, in this order.
\<close>

definition normalize_proxy :: "string \<Rightarrow> string" where
  "normalize_proxy proxy =
     (if proxy = [] then proxy
      else
        (let p0 = strip proxy;
             p1 = (if startswith p0 ''sock5h://''
                   then replace1 ''sock5h://'' ''socks5h://'' p0 else p0);
             p2 = (if startswith p1 ''sock5://''
                   then replace1 ''sock5://'' ''socks5://'' p1 else p1)
         in if startswith p2 ''socks5://''
            then replace1 ''socks5://'' ''socks5h://'' p2
            else p2))"

text \<open>\<open>_looks_like_proxy_url\<close>: \<open>url.startswith\<close> with the four SOCKS spellings.\<close>

definition looks_like_proxy_url :: "string \<Rightarrow> bool" where
  "looks_like_proxy_url url =
     (startswith url ''sock5://'' \<or> startswith url ''sock5h://''
      \<or> startswith url ''socks5://'' \<or> startswith url ''socks5h://'')"

text \<open>
  \<open>configure\<close>. \<open>proxy_url\<close> and \<open>proxy_pool_url\<close> are strings (the empty string for none).
  \<open>the pool0\<close> is read only where \<open>truthy pool0\<close> holds.
\<close>

definition configure :: "proxy_pool \<Rightarrow> string \<Rightarrow> string \<Rightarrow> int \<Rightarrow> proxy_pool" where
  "configure pp proxy_url proxy_pool_url proxy_pool_interval =
     (let static0 = (if proxy_url \<noteq> [] then Some (normalize_proxy proxy_url) else None);
          pool0 = (if proxy_pool_url \<noteq> [] then Some (strip proxy_pool_url) else None);
          sniffed = (truthy pool0 \<and> looks_like_proxy_url (the pool0));
          static1 = (if sniffed \<and> \<not> truthy static0
                     then Some (normalize_proxy (the pool0)) else static0);
          pool1 = (if sniffed then None else pool0);
          pp1 = pp\<lparr>static_proxy := static1, pool_url := pool1,
                    fetch_interval := proxy_pool_interval, enabled := truthy pool1\<rparr>
      in if enabled pp1 then pp1
         else if truthy (static_proxy pp1) then pp1\<lparr>current_proxy := static_proxy pp1\<rparr>
         else pp1)"

text \<open>
  Two notions for the proofs about \<open>normalize_proxy\<close>: a string is \<open>clean\<close> when white
  space neither starts nor ends it, and \<open>rewrite\<close> is the chain of the three replacements
  that \<open>normalize_proxy\<close> applies to the stripped address.
\<close>

definition clean :: "string \<Rightarrow> bool" where
  "clean s = (s = [] \<or> (\<not> is_space (hd s) \<and> \<not> is_space (last s)))"

definition rewrite :: "string \<Rightarrow> string" where
  "rewrite p0 =
     (let p1 = (if startswith p0 ''sock5h://''
                then replace1 ''sock5h://'' ''socks5h://'' p0 else p0);
          p2 = (if startswith p1 ''sock5://''
                then replace1 ''sock5://'' ''socks5://'' p1 else p1)
      in if startswith p2 ''socks5://''
         then replace1 ''socks5://'' ''socks5h://'' p2
         else p2)"

section \<open>The request executor: GrokClient._request in app/services/grok/client.py\<close>

definition MAX_OUTER_RETRY :: nat where
  "MAX_OUTER_RETRY = 3"

definition max_403_retries :: nat where
  "max_403_retries = 5"

text \<open>
  What one call of \<open>curl_requests.post\<close> gives: a response with its status code, the
  exception \<open>RequestsError\<close>, or any other exception.
\<close>

datatype upstream = Response int | RequestsError | OtherError

text \<open>
  The error codes of the \<open>GrokApiException\<close>s that leave \<open>_request\<close>. \<open>HTTP_ERROR\<close> carries
  the status code. \<open>process_normal\<close> raises with the code \<open>JSON_ERROR\<close> or \<open>PROCESS_ERROR\<close>.
\<close>

datatype processor_error = JSON_ERROR | PROCESS_ERROR

datatype request_error =
    NO_AUTH_TOKEN
  | NETWORK_ERROR
  | REQUEST_ERROR
  | HTTP_ERROR int
  | PROCESSOR processor_error
  | MAX_RETRIES_EXCEEDED

text \<open>
  Python's \<open>float\<close> is the IEEE 754 binary64 format. The floats of \<open>_request\<close> are
  positive and in the normal range, so a float is given by a mantissa and an exponent:
  \<open>PyFloat m e\<close> stands for \<open>m * 2 ^ e\<close>. The result of an operation is the exact result
  rounded to 53 significant bits, a tie going to the even mantissa:
  \<open>round_even n s\<close> is \<open>n / 2 ^ s\<close> rounded in this way to an integer, and
  \<open>float_round m e\<close> is the float nearest to \<open>m * 2 ^ e\<close>.
\<close>

fun bit_length :: "nat \<Rightarrow> nat" where
  "bit_length n = (if n = 0 then 0 else Suc (bit_length (n div 2)))"

definition round_even :: "nat \<Rightarrow> nat \<Rightarrow> nat" where
  "round_even n s =
     (let q = n div 2 ^ s; r = n mod 2 ^ s
      in if 2 * r < 2 ^ s then q
         else if 2 ^ s < 2 * r then q + 1
         else if even q then q else q + 1)"

datatype pyfloat = PyFloat nat int

definition float_value :: "pyfloat \<Rightarrow> real" where
  "float_value x =
     (case x of PyFloat m e \<Rightarrow>
        if 0 \<le> e then real m * 2 ^ nat e else real m / 2 ^ nat (- e))"

definition float_round :: "nat \<Rightarrow> int \<Rightarrow> pyfloat" where
  "float_round m e = (let s = bit_length m - 53 in PyFloat (round_even m s) (e + int s))"

text \<open>
  \<open>float_of_nat\<close> is the conversion of an \<open>int\<close> operand to \<open>float\<close>, \<open>float_mul\<close> is
  \<open>*\<close> on floats, and \<open>float_0_1\<close> is the literal \<open>0.1\<close>: the float nearest to one tenth,
  \<open>0x1.999999999999ap-4\<close>, which is 3602879701896397 / 2 ^ 55.
\<close>

definition float_of_nat :: "nat \<Rightarrow> pyfloat" where
  "float_of_nat n = float_round n 0"

definition float_mul :: "pyfloat \<Rightarrow> pyfloat \<Rightarrow> pyfloat" where
  "float_mul x y =
     (case x of PyFloat m1 e1 \<Rightarrow>
        (case y of PyFloat m2 e2 \<Rightarrow> float_round (m1 * m2) (e1 + e2)))"

definition float_0_1 :: pyfloat where
  "float_0_1 = PyFloat 3602879701896397 (- 55)"

text \<open>\<open>delay = (outer_retry + 1) * 0.1\<close>, in seconds.\<close>

definition backoff_delay :: "nat \<Rightarrow> real" where
  "backoff_delay outer_retry = float_value (float_mul (float_of_nat (outer_retry + 1)) float_0_1)"

text \<open>
  The effects of \<open>_request\<close>, in the order they happen: \<open>setting.get_proxy_async\<close>,
  \<open>proxy_pool.force_refresh\<close>, the POST with what it gave, \<open>asyncio.sleep\<close> with its delay in
  seconds, the tasks \<open>token_manager.record_failure\<close> (with the status code) and
  \<open>token_manager.reset_failure\<close>, the hand-over to the response processor, and the task
  \<open>_update_limits\<close>. A delay is the number of seconds that the float passed to
  \<open>asyncio.sleep\<close> stands for; the literal \<open>0.5\<close> is exactly one half.
\<close>

datatype event =
    GetProxy
  | ForceRefresh
  | Post upstream
  | Sleep real
  | RecordFailure int
  | ResetFailure
  | Process
  | UpdateLimits

text \<open>
  What the call depends on: \<open>proxy_pool._enabled\<close>, the configured \<open>retry_status_codes\<close>,
  what the upstream answers to the first, second, ... POST of this call, the \<open>stream\<close>
  flag, and what \<open>process_normal\<close> raises, if anything (\<open>process_stream\<close> only creates a
  generator and raises nothing).
\<close>

record env =
  pool_enabled :: bool
  retry_codes :: "int list"
  answers :: "nat \<Rightarrow> upstream"
  stream :: bool
  normal_outcome :: "processor_error option"

text \<open>
  How one run of the inner \<open>while\<close> loop ends: by \<open>break\<close>, by its condition turning
  false, or by leaving \<open>_request\<close> with a result or an exception. Each carries the number
  of POSTs made so far and the effects so far; \<open>Finished\<close> also carries \<open>outer_retry\<close>.
\<close>

datatype inner_exit =
    Break nat "event list"
  | LoopEnd nat "event list"
  | Finished "request_error + unit" nat nat "event list"

definition calls_of :: "inner_exit \<Rightarrow> nat" where
  "calls_of x = (case x of Break c t \<Rightarrow> c | LoopEnd c t \<Rightarrow> c | Finished r n c t \<Rightarrow> c)"

definition trace_of :: "inner_exit \<Rightarrow> event list" where
  "trace_of x = (case x of Break c t \<Rightarrow> t | LoopEnd c t \<Rightarrow> t | Finished r n c t \<Rightarrow> t)"

text \<open>\<open>_handle_error\<close>: the failure is reported to the token manager, then \<open>HTTP_ERROR\<close> is raised.\<close>

definition handle_error :: "int \<Rightarrow> nat \<Rightarrow> nat \<Rightarrow> event list \<Rightarrow> inner_exit" where
  "handle_error st outer_retry calls tr =
     Finished (Inl (HTTP_ERROR st)) outer_retry calls (tr @ [RecordFailure st])"

text \<open>The path of a response with status 200.\<close>

definition on_success :: "env \<Rightarrow> nat \<Rightarrow> nat \<Rightarrow> event list \<Rightarrow> inner_exit" where
  "on_success e outer_retry calls tr =
     (case (if stream e then None else normal_outcome e) of
        Some err \<Rightarrow> Finished (Inl (PROCESSOR err)) outer_retry calls (tr @ [ResetFailure, Process])
      | None \<Rightarrow> Finished (Inr ()) outer_retry calls (tr @ [ResetFailure, Process, UpdateLimits]))"

text \<open>The checks behind the 403 branch: the retryable codes, then any status but 200.\<close>

definition after_response :: "env \<Rightarrow> int \<Rightarrow> nat \<Rightarrow> nat \<Rightarrow> event list \<Rightarrow> inner_exit" where
  "after_response e st outer_retry calls tr =
     (if st \<in> set (retry_codes e) then
        (if outer_retry < MAX_OUTER_RETRY
         then Break calls (tr @ [Sleep (backoff_delay outer_retry)])
         else handle_error st outer_retry calls tr)
      else if st \<noteq> 200 then handle_error st outer_retry calls tr
      else on_success e outer_retry calls tr)"

text \<open>The proxy is refreshed by force on a 403 retry with the pool enabled, else looked up.\<close>

definition proxy_event :: "env \<Rightarrow> nat \<Rightarrow> event" where
  "proxy_event e retry_403_count =
     (if 0 < retry_403_count \<and> pool_enabled e then ForceRefresh else GetProxy)"

text \<open>
  The inner loop \<open>while retry_403_count <= max_403_retries\<close>. On a 403 with the pool
  enabled the counter is incremented; if it is still at most 5 the loop sleeps 0.5s and
  continues, otherwise the response falls through to the checks of \<open>after_response\<close>.
\<close>

function inner_loop :: "env \<Rightarrow> nat \<Rightarrow> nat \<Rightarrow> nat \<Rightarrow> event list \<Rightarrow> inner_exit" where
  "inner_loop e outer_retry retry_403_count calls tr =
     (if retry_403_count \<le> max_403_retries then
        (let tr1 = tr @ [proxy_event e retry_403_count]
         in case answers e calls of
              RequestsError \<Rightarrow>
                Finished (Inl NETWORK_ERROR) outer_retry (Suc calls) (tr1 @ [Post RequestsError])
            | OtherError \<Rightarrow>
                Finished (Inl REQUEST_ERROR) outer_retry (Suc calls) (tr1 @ [Post OtherError])
            | Response st \<Rightarrow>
                (if st = 403 \<and> pool_enabled e \<and> retry_403_count + 1 \<le> max_403_retries
                 then inner_loop e outer_retry (retry_403_count + 1) (Suc calls)
                        (tr1 @ [Post (Response st), Sleep (1 / 2)])
                 else after_response e st outer_retry (Suc calls) (tr1 @ [Post (Response st)])))
      else LoopEnd calls tr)"
  by pat_completeness auto
termination
  by (relation "measure (\<lambda>(e, outer_retry, retry_403_count, calls, tr). 6 - retry_403_count)")
     (auto simp: max_403_retries_def)

text \<open>
  The outer loop \<open>for outer_retry in range(MAX_OUTER_RETRY + 1)\<close>, and \<open>_request\<close> itself.
  The result is the outcome, the \<open>outer_retry\<close> at which the call ended, the number of
  POSTs, and the effects.
\<close>

function outer_loop :: "env \<Rightarrow> nat \<Rightarrow> nat \<Rightarrow> event list
                          \<Rightarrow> (request_error + unit) \<times> nat \<times> nat \<times> event list" where
  "outer_loop e outer_retry calls tr =
     (if outer_retry < MAX_OUTER_RETRY + 1 then
        (case inner_loop e outer_retry 0 calls tr of
           Break calls' tr' \<Rightarrow> outer_loop e (outer_retry + 1) calls' tr'
         | LoopEnd calls' tr' \<Rightarrow> outer_loop e (outer_retry + 1) calls' tr'
         | Finished r attempt calls' tr' \<Rightarrow> (r, attempt, calls', tr'))
      else (Inl MAX_RETRIES_EXCEEDED, outer_retry, calls, tr))"
  by pat_completeness auto
termination
  by (relation "measure (\<lambda>(e, outer_retry, calls, tr). 4 - outer_retry)")
     (auto simp: MAX_OUTER_RETRY_def)

definition request :: "env \<Rightarrow> string \<Rightarrow> (request_error + unit) \<times> nat \<times> nat \<times> event list" where
  "request e token =
     (if token = [] then (Inl NO_AUTH_TOKEN, 0, 0, []) else outer_loop e 0 0 [])"

text \<open>
  An upstream that gives the listed answers to the first POSTs and refuses every
  connection after them; used to run the executor on a given answer sequence.
\<close>

definition scripted :: "upstream list \<Rightarrow> nat \<Rightarrow> upstream" where
  "scripted rs n = (if n < length rs then rs ! n else RequestsError)"

section \<open>Dictionaries\<close>



lemma dict_set_mem:
  "(k', v') \<in> set (dict_set k v d) \<Longrightarrow> (k', v') = (k, v) \<or> (k', v') \<in> set d"
  by (induction d) (auto split: if_splits)

section \<open>Properties of the credential selection\<close>

lemma scan_tokens_spec:
  "scan_tokens field tokens unused used =
     (unused @ spec_unused field tokens, used @ spec_metered field tokens)"
proof (induction tokens arbitrary: unused used)
  case Nil
  show ?case by (simp add: spec_unused_def spec_metered_def)
next
  case (Cons p tokens)
  obtain k d where p: "p = (k, d)" by (cases p)
  show ?case
    unfolding p
    by (simp add: Cons.IH spec_unused_def spec_metered_def candidate_def MAX_FAILURES_def Let_def)
qed

lemma hd_sort_key_first_min:
  fixes f :: "'a \<Rightarrow> int"
  assumes "ms \<noteq> []"
  shows "\<exists>i < length ms. hd (sort_key f ms) = ms ! i
           \<and> (\<forall>j < length ms. f (ms ! i) \<le> f (ms ! j))
           \<and> (\<forall>j < i. f (ms ! i) < f (ms ! j))"
proof -
  define ys where "ys = sort_key f ms"
  have "ys \<noteq> []" using assms unfolding ys_def by (metis length_sort length_0_conv)
  then obtain y ys' where ys: "ys = y # ys'" by (cases ys) auto
  have srt: "sorted (map f ys)" unfolding ys_def by simp
  have setys: "set ys = set ms" unfolding ys_def by simp
  have least: "\<forall>z \<in> set ms. f y \<le> f z"
    using srt ys setys by auto
  have "filter (\<lambda>z. f z = f y) ms = filter (\<lambda>z. f z = f y) ys"
    unfolding ys_def by (simp add: sort_key_stable)
  also have "\<dots> = y # filter (\<lambda>z. f z = f y) ys'" by (simp add: ys)
  finally have "filter (\<lambda>z. f z = f y) ms = y # filter (\<lambda>z. f z = f y) ys'" .
  then obtain us vs where dec: "ms = us @ y # vs" and us: "\<forall>u \<in> set us. f u \<noteq> f y"
    by (auto simp: filter_eq_Cons_iff)
  let ?i = "length us"
  have i: "?i < length ms" by (simp add: dec)
  have at: "ms ! ?i = y" by (simp add: dec)
  have a: "\<forall>j < length ms. f (ms ! ?i) \<le> f (ms ! j)"
    using least at by simp
  have b: "\<forall>j < ?i. f (ms ! ?i) < f (ms ! j)"
  proof (intro allI impI)
    fix j assume j: "j < ?i"
    then have mem: "ms ! j \<in> set us" by (simp add: dec nth_append)
    then have "f (ms ! j) \<noteq> f y" using us by blast
    moreover have "f y \<le> f (ms ! j)" using least mem dec by auto
    ultimately show "f (ms ! ?i) < f (ms ! j)" using at by simp
  qed
  show ?thesis using i a b at ys by (auto simp: ys_def)
qed

lemma hd_sort_reverse:
  assumes "ms \<noteq> []"
  shows "\<exists>i. first_greatest ms i \<and> hd (sort_reverse ms) = ms ! i"
  using hd_sort_key_first_min [OF assms, of "\<lambda>x. - snd x"]
  unfolding first_greatest_def sort_reverse_def by fastforce

lemma sort_reverse_Nil_iff: "sort_reverse ms = [] \<longleftrightarrow> ms = []"
  unfolding sort_reverse_def by (metis length_sort length_0_conv)

lemma select_best_unfold:
  "select_best tokens field =
     (case spec_unused field tokens of
        k # _ \<Rightarrow> Some (k, - 1)
      | [] \<Rightarrow> (case sort_reverse (spec_metered field tokens) of
                 (k, r) # _ \<Rightarrow> Some (k, r) | [] \<Rightarrow> None))"
  by (simp add: select_best_def scan_tokens_spec)

lemma select_best_unused:
  "spec_unused field tokens \<noteq> [] \<Longrightarrow>
   select_best tokens field = Some (hd (spec_unused field tokens), - 1)"
  by (simp add: select_best_unfold split: list.splits)

lemma select_best_metered:
  assumes "spec_unused field tokens = []" "spec_metered field tokens \<noteq> []"
  shows "\<exists>i. first_greatest (spec_metered field tokens) i
            \<and> select_best tokens field = Some (spec_metered field tokens ! i)"
proof -
  obtain i where i: "first_greatest (spec_metered field tokens) i"
      "hd (sort_reverse (spec_metered field tokens)) = spec_metered field tokens ! i"
    using hd_sort_reverse [OF assms(2)] by blast
  have ne: "sort_reverse (spec_metered field tokens) \<noteq> []"
    using assms(2) by (simp add: sort_reverse_Nil_iff)
  then obtain x xs where xs: "sort_reverse (spec_metered field tokens) = x # xs"
    by (cases "sort_reverse (spec_metered field tokens)") auto
  have "select_best tokens field = Some x"
    using assms(1) xs by (cases x) (simp add: select_best_unfold)
  then show ?thesis using i xs by auto
qed

lemma select_best_none:
  "spec_unused field tokens = [] \<Longrightarrow> spec_metered field tokens = [] \<Longrightarrow>
   select_best tokens field = None"
  by (simp add: select_best_unfold sort_reverse_def)

lemma spec_unused_mem:
  "k \<in> set (spec_unused field tokens) \<Longrightarrow>
   \<exists>d. (k, d) \<in> set tokens \<and> candidate field d \<and> get_remaining d field = - 1"
  by (auto simp: spec_unused_def)

lemma spec_metered_mem:
  "(k, r) \<in> set (spec_metered field tokens) \<Longrightarrow>
   \<exists>d. (k, d) \<in> set tokens \<and> candidate field d \<and> get_remaining d field = r \<and> r > 0"
  by (auto simp: spec_metered_def)

lemma select_best_candidate:
  assumes "select_best tokens field = Some (k, r)"
  shows "\<exists>d. (k, d) \<in> set tokens \<and> candidate field d \<and> get_remaining d field = r"
proof (cases "spec_unused field tokens")
  case (Cons k' ks)
  then have "k = k'" "r = - 1" using assms by (simp_all add: select_best_unfold)
  moreover have "k' \<in> set (spec_unused field tokens)" using Cons by simp
  ultimately show ?thesis using spec_unused_mem by blast
next
  case Nil
  then obtain xs where xs: "sort_reverse (spec_metered field tokens) = (k, r) # xs"
    using assms by (auto simp: select_best_unfold split: list.splits)
  have "(k, r) \<in> set (sort_reverse (spec_metered field tokens))" by (simp add: xs)
  then have "(k, r) \<in> set (spec_metered field tokens)" by (simp add: sort_reverse_def)
  then show ?thesis using spec_metered_mem by blast
qed

section \<open>Properties of failure recording\<close>













section \<open>Properties of adding credentials\<close>







section \<open>The selection policy\<close>

text \<open>
  C1. What one partition yields, and how \<open>select_token\<close> combines the partitions.
  Every key \<open>select_best\<close> returns belongs to a record that is not expired, has fewer
  than three failures and a remaining quota other than 0. If the partition has an unused
  candidate (quota -1), the first one in iteration order is returned. Otherwise, if it has
  a metered candidate (quota above 0), the one returned holds the greatest quota and is
  the first in iteration order to hold it. Otherwise nothing is returned. A request for
  the heavy model reads only the premium partition; any other model reads the standard
  partition and, when that yields nothing, the premium one with the same quota field; when
  nothing is found the outcome is the error \<open>NO_AVAILABLE_TOKEN\<close>.
\<close>

theorem select_token_policy:
  "(\<forall>k r. select_best tokens field = Some (k, r) \<longrightarrow>
      (\<exists>d. (k, d) \<in> set tokens \<and> status d \<noteq> Some ''expired'' \<and> get_failedCount d < 3
           \<and> get_remaining d field \<noteq> 0 \<and> get_remaining d field = r))
   \<and> (spec_unused field tokens \<noteq> [] \<longrightarrow>
         select_best tokens field = Some (hd (spec_unused field tokens), - 1))
   \<and> (spec_unused field tokens = [] \<longrightarrow> spec_metered field tokens \<noteq> [] \<longrightarrow>
         (\<exists>i. first_greatest (spec_metered field tokens) i
              \<and> select_best tokens field = Some (spec_metered field tokens ! i)))
   \<and> (spec_unused field tokens = [] \<longrightarrow> spec_metered field tokens = [] \<longrightarrow>
         select_best tokens field = None)
   \<and> fst (select_token mgr file ''grok-4-heavy'') =
         (case select_best (super_tokens (reload_if_needed mgr file)) ''heavyremainingQueries'' of
            Some (k, r) \<Rightarrow> Inr k
          | None \<Rightarrow> Inl NO_AVAILABLE_TOKEN)
   \<and> (model \<noteq> ''grok-4-heavy'' \<longrightarrow>
         fst (select_token mgr file model) =
           (case select_best (normal_tokens (reload_if_needed mgr file)) ''remainingQueries'' of
              Some (k, r) \<Rightarrow> Inr k
            | None \<Rightarrow>
                (case select_best (super_tokens (reload_if_needed mgr file)) ''remainingQueries'' of
                   Some (k, r) \<Rightarrow> Inr k
                 | None \<Rightarrow> Inl NO_AVAILABLE_TOKEN)))"
proof (intro conjI allI impI)
  fix k r assume "select_best tokens field = Some (k, r)"
  from select_best_candidate [OF this]
  show "\<exists>d. (k, d) \<in> set tokens \<and> status d \<noteq> Some ''expired'' \<and> get_failedCount d < 3
           \<and> get_remaining d field \<noteq> 0 \<and> get_remaining d field = r"
    by (auto simp: candidate_def)
next
  assume "spec_unused field tokens \<noteq> []"
  then show "select_best tokens field = Some (hd (spec_unused field tokens), - 1)"
    by (rule select_best_unused)
next
  assume "spec_unused field tokens = []" "spec_metered field tokens \<noteq> []"
  then show "\<exists>i. first_greatest (spec_metered field tokens) i
              \<and> select_best tokens field = Some (spec_metered field tokens ! i)"
    by (rule select_best_metered)
next
  assume "spec_unused field tokens = []" "spec_metered field tokens = []"
  then show "select_best tokens field = None" by (rule select_best_none)
next
  show "fst (select_token mgr file ''grok-4-heavy'') =
         (case select_best (super_tokens (reload_if_needed mgr file)) ''heavyremainingQueries'' of
            Some (k, r) \<Rightarrow> Inr k
          | None \<Rightarrow> Inl NO_AVAILABLE_TOKEN)"
    by (simp add: select_token_def Let_def split: option.splits)
next
  assume "model \<noteq> ''grok-4-heavy''"
  then show "fst (select_token mgr file model) =
           (case select_best (normal_tokens (reload_if_needed mgr file)) ''remainingQueries'' of
              Some (k, r) \<Rightarrow> Inr k
            | None \<Rightarrow>
                (case select_best (super_tokens (reload_if_needed mgr file)) ''remainingQueries'' of
                   Some (k, r) \<Rightarrow> Inr k
                 | None \<Rightarrow> Inl NO_AVAILABLE_TOKEN))"
    by (simp add: select_token_def Let_def split: option.splits)
qed

theorem select_token_policy_witness:
  "spec_unused ''remainingQueries''
       [(''a'', (fresh_record 0)\<lparr>remainingQueries := Some 50, status := Some ''expired''\<rparr>),
        (''b'', (fresh_record 0)\<lparr>remainingQueries := Some 5\<rparr>),
        (''c'', (fresh_record 0)\<lparr>remainingQueries := Some 9\<rparr>),
        (''d'', (fresh_record 0)\<lparr>remainingQueries := Some 9\<rparr>),
        (''e'', (fresh_record 0)\<lparr>failedCount := Some 3\<rparr>),
        (''f'', (fresh_record 0)\<lparr>remainingQueries := Some 0\<rparr>)] = []
   \<and> spec_metered ''remainingQueries''
       [(''a'', (fresh_record 0)\<lparr>remainingQueries := Some 50, status := Some ''expired''\<rparr>),
        (''b'', (fresh_record 0)\<lparr>remainingQueries := Some 5\<rparr>),
        (''c'', (fresh_record 0)\<lparr>remainingQueries := Some 9\<rparr>),
        (''d'', (fresh_record 0)\<lparr>remainingQueries := Some 9\<rparr>),
        (''e'', (fresh_record 0)\<lparr>failedCount := Some 3\<rparr>),
        (''f'', (fresh_record 0)\<lparr>remainingQueries := Some 0\<rparr>)] = [(''b'', 5), (''c'', 9), (''d'', 9)]
   \<and> ''grok-3'' \<noteq> ''grok-4-heavy''
   \<and> fst (select_token
        \<lparr>normal_tokens =
           [(''a'', (fresh_record 0)\<lparr>remainingQueries := Some 50, status := Some ''expired''\<rparr>),
            (''b'', (fresh_record 0)\<lparr>remainingQueries := Some 5\<rparr>),
            (''c'', (fresh_record 0)\<lparr>remainingQueries := Some 9\<rparr>),
            (''d'', (fresh_record 0)\<lparr>remainingQueries := Some 9\<rparr>),
            (''e'', (fresh_record 0)\<lparr>failedCount := Some 3\<rparr>),
            (''f'', (fresh_record 0)\<lparr>remainingQueries := Some 0\<rparr>)],
         super_tokens = [(''s'', fresh_record 0)], storage = True, save_pending = False\<rparr>
        None ''grok-3'') = Inr ''c''
   \<and> fst (select_token
        \<lparr>normal_tokens = [(''e'', (fresh_record 0)\<lparr>failedCount := Some 3\<rparr>)],
         super_tokens = [(''s'', (fresh_record 0)\<lparr>heavyremainingQueries := Some 0\<rparr>)],
         storage = True, save_pending = False\<rparr>
        None ''grok-3'') = Inr ''s''
   \<and> fst (select_token
        \<lparr>normal_tokens = [(''b'', fresh_record 0)],
         super_tokens = [(''s'', (fresh_record 0)\<lparr>heavyremainingQueries := Some 0\<rparr>)],
         storage = True, save_pending = False\<rparr>
        None ''grok-4-heavy'') = Inl NO_AVAILABLE_TOKEN"
  using select_token_policy
    [of "[(''a'', (fresh_record 0)\<lparr>remainingQueries := Some 50, status := Some ''expired''\<rparr>),
        (''b'', (fresh_record 0)\<lparr>remainingQueries := Some 5\<rparr>),
        (''c'', (fresh_record 0)\<lparr>remainingQueries := Some 9\<rparr>),
        (''d'', (fresh_record 0)\<lparr>remainingQueries := Some 9\<rparr>),
        (''e'', (fresh_record 0)\<lparr>failedCount := Some 3\<rparr>),
        (''f'', (fresh_record 0)\<lparr>remainingQueries := Some 0\<rparr>)]" "''remainingQueries''"
        "\<lparr>normal_tokens =
           [(''a'', (fresh_record 0)\<lparr>remainingQueries := Some 50, status := Some ''expired''\<rparr>),
            (''b'', (fresh_record 0)\<lparr>remainingQueries := Some 5\<rparr>),
            (''c'', (fresh_record 0)\<lparr>remainingQueries := Some 9\<rparr>),
            (''d'', (fresh_record 0)\<lparr>remainingQueries := Some 9\<rparr>),
            (''e'', (fresh_record 0)\<lparr>failedCount := Some 3\<rparr>),
            (''f'', (fresh_record 0)\<lparr>remainingQueries := Some 0\<rparr>)],
         super_tokens = [(''s'', fresh_record 0)], storage = True, save_pending = False\<rparr>"
        None "''grok-3''"]
  by (simp add: spec_unused_def spec_metered_def candidate_def select_token_def select_best_def
        reload_if_needed_def fresh_record_def get_failedCount_def get_remaining_def
        MAX_FAILURES_def sort_reverse_def)

section \<open>Expiry\<close>



section \<open>Failures with status 403\<close>

text \<open>
  C6. For every manager state, credential and message, \<open>record_failure\<close> with status code
  403 returns at once: the whole state, and so every field of every record (failedCount,
  lastFailureTime, lastFailureReason, status), is exactly what it was, and nothing is
  marked for saving.
\<close>

theorem record_failure_403_unchanged:
  "record_failure mgr auth_token 403 msg now = mgr"
  by (simp add: record_failure_def STATSIG_INVALID_def)

section \<open>Recording a success\<close>




section \<open>Adding a credential again\<close>




section \<open>Normalising proxy addresses\<close>

lemma strip_clean: "clean (strip s)"
proof -
  define a where "a = dropWhile is_space s"
  define b where "b = rev (dropWhile is_space (rev a))"
  have sb: "strip s = b" by (simp add: strip_def a_def b_def)
  show ?thesis
  proof (cases "b = []")
    case True
    then show ?thesis by (simp add: sb clean_def)
  next
    case False
    have dne: "dropWhile is_space (rev a) \<noteq> []" using False by (simp add: b_def)
    have l: "\<not> is_space (last b)"
      using hd_dropWhile [OF dne] by (simp add: b_def last_rev)
    have "a = rev (takeWhile is_space (rev a) @ dropWhile is_space (rev a))"
      by (simp only: takeWhile_dropWhile_id rev_rev_ident)
    also have "\<dots> = rev (dropWhile is_space (rev a)) @ rev (takeWhile is_space (rev a))"
      by (rule rev_append)
    finally have dec: "a = b @ rev (takeWhile is_space (rev a))" by (simp only: b_def)
    have ane: "a \<noteq> []" using dec False by auto
    have "\<not> is_space (hd a)" using hd_dropWhile [of is_space s] ane by (simp add: a_def)
    moreover have "hd a = hd b" using dec False by (metis hd_append2)
    ultimately show ?thesis using l by (simp add: sb clean_def)
  qed
qed

lemma clean_strip: "clean s \<Longrightarrow> strip s = s"
proof (cases "s = []")
  case True
  then show ?thesis by (simp add: strip_def)
next
  case False
  assume "clean s"
  then have h: "\<not> is_space (hd s)" "\<not> is_space (last s)" using False by (auto simp: clean_def)
  have 1: "dropWhile is_space s = s" using h(1) by (simp add: dropWhile_eq_self_iff)
  have "\<not> is_space (hd (rev s))" using h(2) by (simp add: hd_rev)
  then have 2: "dropWhile is_space (rev s) = rev s" by (simp add: dropWhile_eq_self_iff)
  show ?thesis by (simp add: strip_def 1 2)
qed

lemma strip_idem: "strip (strip s) = strip s"
  by (rule clean_strip) (rule strip_clean)

lemma startswith_split: "startswith s p \<Longrightarrow> s = p @ drop (length p) s"
  by (metis append_take_drop_id startswith_def)

lemma clean_socks5h: "clean (p @ t) \<Longrightarrow> p \<noteq> [] \<Longrightarrow> clean (''socks5h://'' @ t)"
  by (cases "t = []") (auto simp: clean_def is_space_def)

lemma replace1_prefix: "startswith s old \<Longrightarrow> old \<noteq> [] \<Longrightarrow> replace1 old new s = new @ drop (length old) s"
  by (cases s) (auto simp: startswith_def)

lemma rewrite_cases:
  "rewrite p0 =
     (if startswith p0 ''sock5h://'' then ''socks5h://'' @ drop (length ''sock5h://'') p0
      else if startswith p0 ''sock5://'' then ''socks5h://'' @ drop (length ''sock5://'') p0
      else if startswith p0 ''socks5://'' then ''socks5h://'' @ drop (length ''socks5://'') p0
      else p0)"
proof -
  consider (a) "startswith p0 ''sock5h://''"
    | (b) "\<not> startswith p0 ''sock5h://''" "startswith p0 ''sock5://''"
    | (c) "\<not> startswith p0 ''sock5h://''" "\<not> startswith p0 ''sock5://''" "startswith p0 ''socks5://''"
    | (d) "\<not> startswith p0 ''sock5h://''" "\<not> startswith p0 ''sock5://''" "\<not> startswith p0 ''socks5://''"
    by blast
  then show ?thesis
  proof cases
    case a
    then show ?thesis
      by (simp add: rewrite_def replace1_prefix Let_def) (simp add: startswith_def)
  next
    case b
    then show ?thesis
      by (simp add: rewrite_def replace1_prefix Let_def) (simp add: startswith_def)
  next
    case c
    then show ?thesis
      by (simp add: rewrite_def replace1_prefix Let_def)
  next
    case d
    then show ?thesis
      by (simp add: rewrite_def Let_def)
  qed
qed

lemma normalize_proxy_rewrite:
  "normalize_proxy p = (if p = [] then [] else rewrite (strip p))"
  by (simp add: normalize_proxy_def rewrite_def Let_def)

lemma rewrite_socks5h: "rewrite (''socks5h://'' @ t) = ''socks5h://'' @ t"
  by (simp add: rewrite_cases startswith_def)

lemma rewrite_shape:
  "(\<exists>t q. q \<noteq> [] \<and> p0 = q @ t \<and> rewrite p0 = ''socks5h://'' @ t) \<or> 
   (rewrite p0 = p0 \<and> \<not> startswith p0 ''sock5h://'' \<and> \<not> startswith p0 ''sock5://''
      \<and> \<not> startswith p0 ''socks5://'')"
proof -
  consider (a) "startswith p0 ''sock5h://''"
    | (b) "\<not> startswith p0 ''sock5h://''" "startswith p0 ''sock5://''"
    | (c) "\<not> startswith p0 ''sock5h://''" "\<not> startswith p0 ''sock5://''" "startswith p0 ''socks5://''"
    | (d) "\<not> startswith p0 ''sock5h://''" "\<not> startswith p0 ''sock5://''" "\<not> startswith p0 ''socks5://''"
    by blast
  then show ?thesis
  proof cases
    case a
    from startswith_split [OF a] show ?thesis
      using a by (subst rewrite_cases) (metis list.distinct(1))
  next
    case b
    from startswith_split [OF b(2)] show ?thesis
      using b by (subst rewrite_cases) (metis list.distinct(1))
  next
    case c
    from startswith_split [OF c(3)] show ?thesis
      using c by (subst rewrite_cases) (metis list.distinct(1))
  next
    case d
    then show ?thesis by (simp add: rewrite_cases)
  qed
qed

lemma rewrite_clean: "clean p0 \<Longrightarrow> clean (rewrite p0)"
  using rewrite_shape [of p0] clean_socks5h by (metis)

lemma rewrite_idem: "rewrite (rewrite p0) = rewrite p0"
  using rewrite_shape [of p0] rewrite_socks5h by (metis)

lemma normalize_proxy_idem: "normalize_proxy (normalize_proxy p) = normalize_proxy p"
proof (cases "p = [] \<or> rewrite (strip p) = []")
  case True
  then show ?thesis by (auto simp: normalize_proxy_rewrite)
next
  case False
  have "clean (rewrite (strip p))" by (rule rewrite_clean) (rule strip_clean)
  then have "strip (rewrite (strip p)) = rewrite (strip p)" by (rule clean_strip)
  then show ?thesis using False by (simp add: normalize_proxy_rewrite rewrite_idem)
qed

lemma rewrite_canonical:
  "looks_like_proxy_url p0 \<Longrightarrow> startswith (rewrite p0) ''socks5h://''"
  by (auto simp: looks_like_proxy_url_def rewrite_cases) (simp_all add: startswith_def)

lemma looks_like_nonempty: "looks_like_proxy_url u \<Longrightarrow> u \<noteq> []"
  by (auto simp: looks_like_proxy_url_def startswith_def)

lemma strip_Nil_iff_src: "strip p \<noteq> [] \<Longrightarrow> p \<noteq> []"
  by (auto simp: strip_def)

lemma normalize_proxy_canonical:
  "looks_like_proxy_url (strip p) \<Longrightarrow> startswith (normalize_proxy p) ''socks5h://''"
  using looks_like_nonempty [of "strip p"] strip_Nil_iff_src [of p] rewrite_canonical [of "strip p"]
  by (simp add: normalize_proxy_rewrite)

section \<open>Configuring the proxy pool\<close>

text \<open>
  C9. When the pool source given to \<open>configure\<close> (stripped) starts with one of the SOCKS
  spellings, the pool source is dropped: afterwards there is no pool URL, rotation is
  off, and the static proxy is the normalized \<open>proxy_url\<close> when that is a non-empty
  address (the literal is then ignored) and the normalized literal otherwise; it is also
  the current proxy. Every address that starts with \<open>sock5://\<close>, \<open>sock5h://\<close>,
  \<open>socks5://\<close> or \<open>socks5h://\<close> is normalized to one that starts with \<open>socks5h://\<close>,
  normalizing twice is normalizing once, and whatever static proxy \<open>configure\<close> stores
  is a fixed point of the normalization.
\<close>

theorem configure_sniffs_and_normalizes:
  "(looks_like_proxy_url (strip proxy_pool_url) \<longrightarrow>
      \<not> enabled (configure pp proxy_url proxy_pool_url interval)
      \<and> pool_url (configure pp proxy_url proxy_pool_url interval) = None
      \<and> static_proxy (configure pp proxy_url proxy_pool_url interval)
          = (if proxy_url \<noteq> [] \<and> normalize_proxy proxy_url \<noteq> []
             then Some (normalize_proxy proxy_url)
             else Some (normalize_proxy (strip proxy_pool_url)))
      \<and> current_proxy (configure pp proxy_url proxy_pool_url interval)
          = static_proxy (configure pp proxy_url proxy_pool_url interval))
   \<and> (looks_like_proxy_url (strip p) \<longrightarrow> startswith (normalize_proxy p) ''socks5h://'')
   \<and> normalize_proxy (normalize_proxy p) = normalize_proxy p
   \<and> (\<forall>s. static_proxy (configure pp proxy_url proxy_pool_url interval) = Some s
          \<longrightarrow> normalize_proxy s = s)"
proof (intro conjI impI allI)
  assume l: "looks_like_proxy_url (strip proxy_pool_url)"
  have ne: "strip proxy_pool_url \<noteq> []" using l by (rule looks_like_nonempty)
  then have ne': "proxy_pool_url \<noteq> []" by (rule strip_Nil_iff_src)
  have c: "startswith (normalize_proxy (strip proxy_pool_url)) ''socks5h://''"
    using normalize_proxy_canonical [of "strip proxy_pool_url"] l by (simp add: strip_idem)
  then have nn: "normalize_proxy (strip proxy_pool_url) \<noteq> []"
    by (auto simp: startswith_def)
  show "\<not> enabled (configure pp proxy_url proxy_pool_url interval)"
    using l ne ne' by (simp add: configure_def Let_def truthy_def)
  show "pool_url (configure pp proxy_url proxy_pool_url interval) = None"
    using l ne ne' by (simp add: configure_def Let_def truthy_def)
  show "static_proxy (configure pp proxy_url proxy_pool_url interval)
          = (if proxy_url \<noteq> [] \<and> normalize_proxy proxy_url \<noteq> []
             then Some (normalize_proxy proxy_url)
             else Some (normalize_proxy (strip proxy_pool_url)))"
    using l ne ne' by (simp add: configure_def Let_def truthy_def)
  show "current_proxy (configure pp proxy_url proxy_pool_url interval)
          = static_proxy (configure pp proxy_url proxy_pool_url interval)"
    using l ne ne' nn by (simp add: configure_def Let_def truthy_def)
next
  assume "looks_like_proxy_url (strip p)"
  then show "startswith (normalize_proxy p) ''socks5h://''" by (rule normalize_proxy_canonical)
next
  show "normalize_proxy (normalize_proxy p) = normalize_proxy p" by (rule normalize_proxy_idem)
next
  fix s
  assume "static_proxy (configure pp proxy_url proxy_pool_url interval) = Some s"
  then have "s = normalize_proxy proxy_url \<or> s = normalize_proxy (strip proxy_pool_url)"
    by (auto simp: configure_def Let_def truthy_def split: if_splits)
  then show "normalize_proxy s = s" using normalize_proxy_idem by auto
qed

theorem configure_sniffs_and_normalizes_witness:
  "looks_like_proxy_url (strip '' sock5://10.0.0.1:1080 '')
   \<and> \<not> enabled (configure
         \<lparr>pool_url = None, static_proxy = None, current_proxy = None, last_fetch_time = 0,
          fetch_interval = 300, enabled = False\<rparr> [] '' sock5://10.0.0.1:1080 '' 300)
   \<and> static_proxy (configure
         \<lparr>pool_url = None, static_proxy = None, current_proxy = None, last_fetch_time = 0,
          fetch_interval = 300, enabled = False\<rparr> [] '' sock5://10.0.0.1:1080 '' 300)
       = Some ''socks5h://10.0.0.1:1080''
   \<and> normalize_proxy ''socks5h://10.0.0.1:1080'' = ''socks5h://10.0.0.1:1080''"
  using configure_sniffs_and_normalizes
    [of "'' sock5://10.0.0.1:1080 ''"
        "\<lparr>pool_url = None, static_proxy = None, current_proxy = None, last_fetch_time = 0,
          fetch_interval = 300, enabled = False\<rparr>" "[]" 300 "'' sock5://10.0.0.1:1080 ''"]
  by (simp add: looks_like_proxy_url_def startswith_def strip_def is_space_def
        normalize_proxy_def Let_def)

section \<open>The back-off delays\<close>

declare bit_length.simps [simp del]






section \<open>The two retry loops\<close>

declare inner_loop.simps [simp del]
declare outer_loop.simps [simp del]

lemma inner_loop_rotate:
  assumes "pool_enabled e" "answers e calls = Response 403" "c < 5"
  shows "inner_loop e n c calls tr =
           inner_loop e n (Suc c) (Suc calls)
             (tr @ [proxy_event e c, Post (Response 403), Sleep (1 / 2)])"
  using assms
  by (subst inner_loop.simps) (simp add: max_403_retries_def Let_def)

lemma inner_loop_settle:
  assumes "answers e calls = Response st" "\<not> (st = 403 \<and> pool_enabled e \<and> c < 5)" "c \<le> 5"
  shows "inner_loop e n c calls tr =
           after_response e st n (Suc calls) (tr @ [proxy_event e c, Post (Response st)])"
  using assms
  by (subst inner_loop.simps) (auto simp: max_403_retries_def Let_def)

lemma inner_loop_raise:
  assumes "answers e calls = RequestsError \<or> answers e calls = OtherError" "c \<le> 5"
  shows "inner_loop e n c calls tr =
           Finished (Inl (if answers e calls = RequestsError then NETWORK_ERROR else REQUEST_ERROR))
             n (Suc calls) (tr @ [proxy_event e c, Post (answers e calls)])"
  using assms
  by (subst inner_loop.simps) (auto simp: max_403_retries_def Let_def)

lemma after_response_calls: "calls_of (after_response e st n calls tr) = calls"
  by (simp add: after_response_def handle_error_def on_success_def calls_of_def split: option.splits)

lemma after_response_no_refresh:
  "count_list (trace_of (after_response e st n calls tr)) ForceRefresh = count_list tr ForceRefresh"
  by (simp add: after_response_def handle_error_def on_success_def trace_of_def split: option.splits)


text \<open>
  The attempts of one run of the inner loop: \<open>k\<close> retries after the first POST, each after
  a 403 with the pool enabled, each with one forced refresh.
\<close>

lemma inner_loop_attempts:
  "c \<le> 5 \<Longrightarrow>
   \<exists>k. calls_of (inner_loop e n c calls tr) = Suc (calls + k) \<and> k \<le> 5 - c
       \<and> (\<forall>j<k. answers e (calls + j) = Response 403) \<and> (0 < k \<longrightarrow> pool_enabled e)
       \<and> count_list (trace_of (inner_loop e n c calls tr)) ForceRefresh
           = count_list tr ForceRefresh + k + (if 0 < c \<and> pool_enabled e then 1 else 0)"
proof (induction e n c calls tr rule: inner_loop.induct)
  case (1 e n c calls tr)
  show ?case
  proof (cases "answers e calls")
    case (Response st)
    show ?thesis
    proof (cases "st = 403 \<and> pool_enabled e \<and> c < 5")
      case True
      let ?tr = "tr @ [proxy_event e c, Post (Response st), Sleep (1 / 2)]"
      have step: "inner_loop e n c calls tr = inner_loop e n (Suc c) (Suc calls) ?tr"
        using inner_loop_rotate [of e calls c n tr] True Response by simp
      have "\<exists>k. calls_of (inner_loop e n (c + 1) (Suc calls) ?tr) = Suc (Suc calls + k)
               \<and> k \<le> 5 - (c + 1)
               \<and> (\<forall>j<k. answers e (Suc calls + j) = Response 403) \<and> (0 < k \<longrightarrow> pool_enabled e)
               \<and> count_list (trace_of (inner_loop e n (c + 1) (Suc calls) ?tr)) ForceRefresh
                   = count_list ?tr ForceRefresh + k + (if 0 < c + 1 \<and> pool_enabled e then 1 else 0)"
        using "1.IH" [of "tr @ [proxy_event e c]" st] True Response "1.prems"
        by (simp add: max_403_retries_def)
      then obtain k where k: "calls_of (inner_loop e n (Suc c) (Suc calls) ?tr) = Suc (Suc calls + k)"
          "k \<le> 5 - (c + 1)" "\<forall>j<k. answers e (Suc calls + j) = Response 403"
          "count_list (trace_of (inner_loop e n (Suc c) (Suc calls) ?tr)) ForceRefresh
             = count_list ?tr ForceRefresh + k + 1"
        using True by auto
      have all: "\<forall>j<Suc k. answers e (calls + j) = Response 403"
      proof (intro allI impI)
        fix j assume "j < Suc k"
        then show "answers e (calls + j) = Response 403"
          using k(3) True Response by (cases j) auto
      qed
      have cnt: "count_list ?tr ForceRefresh
                   = count_list tr ForceRefresh + (if 0 < c \<and> pool_enabled e then 1 else 0)"
        by (simp add: proxy_event_def)
      have bound: "Suc k \<le> 5 - c" using k(2) True by arith
      show ?thesis
        apply (rule exI [of _ "Suc k"])
        using step k(1,4) bound all cnt True by simp
    next
      case False
      have step: "inner_loop e n c calls tr =
           after_response e st n (Suc calls) (tr @ [proxy_event e c, Post (Response st)])"
        using inner_loop_settle [OF Response False "1.prems"] .
      show ?thesis
        apply (rule exI [of _ 0])
        by (simp add: step after_response_calls after_response_no_refresh proxy_event_def)
    qed
  next
    case RequestsError
    show ?thesis
      apply (rule exI [of _ 0])
      using inner_loop_raise [of e calls c n tr] RequestsError "1.prems"
      by (simp add: calls_of_def trace_of_def proxy_event_def)
  next
    case OtherError
    show ?thesis
      apply (rule exI [of _ 0])
      using inner_loop_raise [of e calls c n tr] OtherError "1.prems"
      by (simp add: calls_of_def trace_of_def proxy_event_def)
  qed
qed




lemma outer_loop_finish:
  "n < 4 \<Longrightarrow> inner_loop e n 0 calls tr = Finished r a c' t' \<Longrightarrow>
   outer_loop e n calls tr = (r, a, c', t')"
  by (subst outer_loop.simps) (simp add: MAX_OUTER_RETRY_def)





lemma request_403_403_200:
  assumes "pool_enabled e" "answers e 0 = Response 403" "answers e 1 = Response 403"
    "answers e 2 = Response 200" "200 \<notin> set (retry_codes e)" "token \<noteq> []"
    "stream e \<or> normal_outcome e = None"
  shows "request e token =
     (Inr (), 0, 3,
      [GetProxy, Post (Response 403), Sleep (1 / 2),
       ForceRefresh, Post (Response 403), Sleep (1 / 2),
       ForceRefresh, Post (Response 200), ResetFailure, Process, UpdateLimits])"
proof -
  have a1: "answers e (Suc 0) = Response 403" using assms(3) by simp
  have a2: "answers e (Suc (Suc 0)) = Response 200" using assms(4) by (simp add: numeral_2_eq_2)
  have "inner_loop e 0 0 0 [] =
          inner_loop e 0 (Suc 0) (Suc 0) [GetProxy, Post (Response 403), Sleep (1 / 2)]"
    using inner_loop_rotate [OF assms(1) assms(2), of 0 0 "[]"] by (simp add: proxy_event_def)
  also have "\<dots> = inner_loop e 0 (Suc (Suc 0)) (Suc (Suc 0))
          [GetProxy, Post (Response 403), Sleep (1 / 2),
           ForceRefresh, Post (Response 403), Sleep (1 / 2)]"
    using inner_loop_rotate [OF assms(1) a1, of "Suc 0" 0] assms(1) by (simp add: proxy_event_def)
  also have "\<dots> = after_response e 200 0 (Suc (Suc (Suc 0)))
          [GetProxy, Post (Response 403), Sleep (1 / 2),
           ForceRefresh, Post (Response 403), Sleep (1 / 2),
           ForceRefresh, Post (Response 200)]"
    using inner_loop_settle [OF a2, of "Suc (Suc 0)" 0] assms(1) by (simp add: proxy_event_def)
  also have "\<dots> = Finished (Inr ()) 0 3
          [GetProxy, Post (Response 403), Sleep (1 / 2),
           ForceRefresh, Post (Response 403), Sleep (1 / 2),
           ForceRefresh, Post (Response 200), ResetFailure, Process, UpdateLimits]"
    using assms(5,7) by (auto simp: after_response_def on_success_def)
  finally show ?thesis
    using assms(6) by (simp add: request_def outer_loop_finish)
qed



section \<open>Retrying a request\<close>

text \<open>
  C3. With the proxy pool enabled and the upstream answering 403, 403, 200 (200 not being
  configured as retryable), \<open>_request\<close> succeeds in the first outer attempt after three
  POSTs: each 403 is followed by a sleep of 0.5s and one \<open>force_refresh\<close> before the next
  POST, \<open>force_refresh\<close> is called exactly twice, and no failure is reported to the token
  manager. In general one run of the inner loop makes \<open>k\<close> POSTs beyond its first with
  \<open>k\<close> at most 5; each of them follows an answer 403, happens only with the pool enabled,
  and comes with exactly one \<open>force_refresh\<close>.
\<close>

theorem rotation_on_403:
  "(pool_enabled e \<and> answers e 0 = Response 403 \<and> answers e 1 = Response 403
      \<and> answers e 2 = Response 200 \<and> 200 \<notin> set (retry_codes e) \<and> token \<noteq> []
      \<and> (stream e \<or> normal_outcome e = None) \<longrightarrow>
      request e token =
        (Inr (), 0, 3,
         [GetProxy, Post (Response 403), Sleep (1 / 2),
          ForceRefresh, Post (Response 403), Sleep (1 / 2),
          ForceRefresh, Post (Response 200), ResetFailure, Process, UpdateLimits]))
   \<and> (\<exists>k. k \<le> 5
         \<and> calls_of (inner_loop e n 0 calls tr) = Suc (calls + k)
         \<and> (\<forall>j<k. answers e (calls + j) = Response 403)
         \<and> (0 < k \<longrightarrow> pool_enabled e)
         \<and> count_list (trace_of (inner_loop e n 0 calls tr)) ForceRefresh
             = count_list tr ForceRefresh + k)"
proof (intro conjI impI)
  assume "pool_enabled e \<and> answers e 0 = Response 403 \<and> answers e 1 = Response 403
      \<and> answers e 2 = Response 200 \<and> 200 \<notin> set (retry_codes e) \<and> token \<noteq> []
      \<and> (stream e \<or> normal_outcome e = None)"
  then show "request e token =
        (Inr (), 0, 3,
         [GetProxy, Post (Response 403), Sleep (1 / 2),
          ForceRefresh, Post (Response 403), Sleep (1 / 2),
          ForceRefresh, Post (Response 200), ResetFailure, Process, UpdateLimits])"
    using request_403_403_200 [of e token] by blast
next
  show "\<exists>k. k \<le> 5
         \<and> calls_of (inner_loop e n 0 calls tr) = Suc (calls + k)
         \<and> (\<forall>j<k. answers e (calls + j) = Response 403)
         \<and> (0 < k \<longrightarrow> pool_enabled e)
         \<and> count_list (trace_of (inner_loop e n 0 calls tr)) ForceRefresh
             = count_list tr ForceRefresh + k"
    using inner_loop_attempts [of 0 e n calls tr] by auto
qed

theorem rotation_on_403_witness:
  "request
     \<lparr>pool_enabled = True, retry_codes = [401, 429],
      answers = scripted [Response 403, Response 403, Response 200],
      stream = True, normal_outcome = None\<rparr> ''sso-rw=abc;sso=abc''
   = (Inr (), 0, 3,
      [GetProxy, Post (Response 403), Sleep (1 / 2),
       ForceRefresh, Post (Response 403), Sleep (1 / 2),
       ForceRefresh, Post (Response 200), ResetFailure, Process, UpdateLimits])
   \<and> count_list
        [GetProxy, Post (Response 403), Sleep (1 / 2),
         ForceRefresh, Post (Response 403), Sleep (1 / 2),
         ForceRefresh, Post (Response 200), ResetFailure, Process, UpdateLimits] ForceRefresh = 2"
  using rotation_on_403
    [of "\<lparr>pool_enabled = True, retry_codes = [401, 429],
          answers = scripted [Response 403, Response 403, Response 200],
          stream = True, normal_outcome = None\<rparr>" "''sso-rw=abc;sso=abc''" 0 0 "[]"]
  by (simp add: scripted_def)



end
